theory Spec2Isabelle
  imports Complex_Main
begin

section \<open>Exceptions\<close>

text \<open>
  The exceptions that the listener (script.py) raises or catches, as values. The
  predicate \<open>is_IOError\<close> is Python's class test \<open>isinstance(e, IOError)\<close>: in
  Python 3 \<open>IOError\<close> is \<open>OSError\<close>, the builtin \<open>ConnectionError\<close> is one of
  its subclasses, and \<open>requests.exceptions.ReadTimeout\<close> derives from
  \<open>RequestException\<close>, which derives from \<open>IOError\<close>.
\<close>

datatype py_error =
    ConnectionError
  | ReadTimeout
  | BlockNotFound
  | IOError
  | JSONDecodeError
  | UnicodeDecodeError
  | KeyError
  | TypeError
  | ValueError
  | OtherException

fun is_IOError :: "py_error \<Rightarrow> bool" where
  "is_IOError ConnectionError = True"
| "is_IOError ReadTimeout = True"
| "is_IOError IOError = True"
| "is_IOError _ = False"

section \<open>Events and the event handler (CrossChainEventHandler)\<close>

text \<open>
  An event is a dictionary \<open>Dict[str, Any]\<close>. The handler reads the keys
  \<open>transactionHash\<close> and \<open>args\<close>, and in \<open>args\<close> the keys \<open>destinationChainId\<close>,
  \<open>amount\<close>, \<open>recipient\<close> and \<open>nonce\<close>. A key that is missing is \<open>None\<close> here, and
  reading it raises \<open>KeyError\<close> in the model as the subscript does in Python. The field
  \<open>transactionHash\<close> holds the result of \<open>.hex()\<close>.
\<close>

record event_args =
  destinationChainId :: "int option"
  amount :: "int option"
  recipient :: "string option"
  nonce :: "int option"

record event =
  transactionHash :: "string option"
  args :: "event_args option"

text \<open>
  The handler's calls to the logger, in the order of the source. In the simulation the
  action for the destination chain is the three lines \<open>ActionRequired\<close>, \<open>MintUnlock\<close>
  and \<open>SourceTx\<close>; only the last one carries the source transaction, and it is the last
  statement before the transaction is marked as processed.
\<close>

datatype log_entry =
    AlreadyProcessed string
  | ProcessingNew string
  | WrongChain int
  | ActionRequired int
  | MintUnlock int string
  | SourceTx string int
  | FailedEvent event py_error

record handler =
  processed_events :: "string set"
  emitted :: "log_entry list"

text \<open>
  \<open>process_event\<close> returns \<open>None\<close> on every path. The model returns, beside the new
  handler, the path that was taken: the early return of the duplicate test, the early
  return of the destination test, the end of the \<open>try\<close> body, or the \<open>except\<close> clause.
\<close>

datatype outcome = Dispatched | SkippedWrongChain | SkippedDuplicate | Failed

definition CrossChainEventHandler_init :: handler where
  "CrossChainEventHandler_init = \<lparr>processed_events = {}, emitted = []\<rparr>"

definition emit :: "log_entry \<Rightarrow> handler \<Rightarrow> handler" where
  "emit l h = h\<lparr>emitted := emitted h @ [l]\<rparr>"

definition raised :: "event \<Rightarrow> py_error \<Rightarrow> handler \<Rightarrow> outcome \<times> handler" where
  "raised ev e h = (Failed, emit (FailedEvent ev e) h)"

definition process_event :: "int \<Rightarrow> event \<Rightarrow> handler \<Rightarrow> outcome \<times> handler" where
  "process_event chain_id ev h =
     (case transactionHash ev of
        None \<Rightarrow> raised ev KeyError h
      | Some tx_hash_hex \<Rightarrow>
          if tx_hash_hex \<in> processed_events h
          then (SkippedDuplicate, emit (AlreadyProcessed tx_hash_hex) h)
          else
            (case args ev of
               None \<Rightarrow> raised ev KeyError h
             | Some a \<Rightarrow>
                 let h1 = emit (ProcessingNew tx_hash_hex) h in
                 (case destinationChainId a of
                    None \<Rightarrow> raised ev KeyError h1
                  | Some d \<Rightarrow>
                      if d \<noteq> chain_id
                      then (SkippedWrongChain, emit (WrongChain d) h1)
                      else
                        let h2 = emit (ActionRequired chain_id) h1 in
                        (case amount a of
                           None \<Rightarrow> raised ev KeyError h2
                         | Some amt \<Rightarrow>
                             (case recipient a of
                                None \<Rightarrow> raised ev KeyError h2
                              | Some rcp \<Rightarrow>
                                  let h3 = emit (MintUnlock amt rcp) h2 in
                                  (case nonce a of
                                     None \<Rightarrow> raised ev KeyError h3
                                   | Some n \<Rightarrow>
                                       let h4 = emit (SourceTx tx_hash_hex n) h3 in
                                       (Dispatched,
                                        h4\<lparr>processed_events :=
                                             insert tx_hash_hex (processed_events h4)\<rparr>)))))))"

text \<open>
  The loop \<open>for event in events: self.event_handler.process_event(event)\<close> of
  \<open>_run_cycle\<close>; \<open>batch_outcomes\<close> lists the path each event of the batch took.
\<close>

fun process_events :: "int \<Rightarrow> event list \<Rightarrow> handler \<Rightarrow> handler" where
  "process_events chain_id [] h = h"
| "process_events chain_id (ev # evs) h =
     process_events chain_id evs (snd (process_event chain_id ev h))"

fun batch_outcomes :: "int \<Rightarrow> event list \<Rightarrow> handler \<Rightarrow> outcome list" where
  "batch_outcomes chain_id [] h = []"
| "batch_outcomes chain_id (ev # evs) h =
     fst (process_event chain_id ev h)
       # batch_outcomes chain_id evs (snd (process_event chain_id ev h))"

text \<open>The number of actions that the handler has emitted for one source transaction.\<close>

fun is_dispatch_of :: "string \<Rightarrow> log_entry \<Rightarrow> bool" where
  "is_dispatch_of tx (SourceTx tx' n) = (tx' = tx)"
| "is_dispatch_of tx _ = False"

definition dispatch_count :: "string \<Rightarrow> handler \<Rightarrow> nat" where
  "dispatch_count tx h = length (filter (is_dispatch_of tx) (emitted h))"

fun is_action :: "log_entry \<Rightarrow> bool" where
  "is_action (ActionRequired c) = True"
| "is_action (MintUnlock amt rcp) = True"
| "is_action (SourceTx tx n) = True"
| "is_action _ = False"

definition actions :: "handler \<Rightarrow> log_entry list" where
  "actions h = filter is_action (emitted h)"


text \<open>
  The dedup cache accounts for the actions emitted for \<open>tx\<close>: one if \<open>tx\<close> is in
  the cache, none if it is not.
\<close>

definition cache_covers :: "string \<Rightarrow> handler \<Rightarrow> bool" where
  "cache_covers tx h = (dispatch_count tx h = (if tx \<in> processed_events h then 1 else 0))"

text \<open>
  The configured destination chain, and the deposit event of the specification's
  scenario (recipient R, amount 5, nonce 1) for a given transaction and destination.
\<close>

definition DESTINATION_CHAIN_ID :: int where
  "DESTINATION_CHAIN_ID = 80001"

definition deposit :: "string \<Rightarrow> int \<Rightarrow> event" where
  "deposit tx d =
     \<lparr>transactionHash = Some tx,
      args = Some \<lparr>destinationChainId = Some d, amount = Some 5,
                   recipient = Some ''R'', nonce = Some 1\<rparr>\<rparr>"

section \<open>The listener (EventListener)\<close>

text \<open>
  The state file, by what \<open>json.load\<close> makes of its contents. A file that does not
  exist is \<open>None\<close>.
  \<^item> \<open>EmptyFile\<close> and \<open>NotJson\<close> (a text that is not JSON) raise \<open>JSONDecodeError\<close>.
  \<^item> \<open>NotUtf8\<close>, bytes that do not decode as text, raises \<open>UnicodeDecodeError\<close>.
  \<^item> \<open>StateJson n\<close> is a JSON object whose \<open>last_processed_block\<close> is the integer
    \<open>n\<close>, as \<open>json.dump\<close> writes it for the state (\<open>true\<close> and \<open>false\<close> count
    as 1 and 0, as they do in Python's arithmetic).
  \<^item> \<open>StateNotInt\<close> is a JSON object whose \<open>last_processed_block\<close> is any other
    value (\<open>null\<close>, a string, a float, a list, an object).
  \<^item> \<open>ObjectWithoutKey\<close> is a JSON object without that key: line 277 raises
    \<open>KeyError\<close>.
  \<^item> \<open>NotObject\<close> is any other JSON value: line 277 raises \<open>TypeError\<close>.
\<close>

datatype file_content =
    EmptyFile
  | NotJson
  | NotUtf8
  | StateJson int
  | StateNotInt
  | ObjectWithoutKey
  | NotObject

text \<open>
  The listener: the checkpoint \<open>self.state['last_processed_block']\<close>, the state file
  on storage, the event handler it owns, and the windows for which \<open>fetch_events\<close> was
  called (its \<open>logger.debug\<close> line 185), in order.
\<close>

record listener =
  last_processed_block :: int
  state_file :: "file_content option"
  event_handler :: handler
  fetched :: "(int \<times> int) list"

text \<open>
  \<open>_save_state\<close>: \<open>open(STATE_FILE_PATH, 'w')\<close> truncates the file, \<open>json.dump\<close>
  writes the state into it. An \<open>IOError\<close> of either is caught and logged: when \<open>open\<close>
  fails the file is as it was, when the write fails the file stays truncated.
\<close>

datatype save_fault = NoFault | OpenFault | WriteFault

definition save_state :: "save_fault \<Rightarrow> listener \<Rightarrow> listener" where
  "save_state fault s =
     (case fault of
        OpenFault \<Rightarrow> s
      | WriteFault \<Rightarrow> s\<lparr>state_file := Some EmptyFile\<rparr>
      | NoFault \<Rightarrow> s\<lparr>state_file := Some (StateJson (last_processed_block s))\<rparr>)"

text \<open>
  The contents of the state file on storage in the course of one save without fault:
  before \<open>open\<close>, after \<open>open\<close> has truncated it, and after the write.
\<close>

definition save_state_storage :: "listener \<Rightarrow> file_content option list" where
  "save_state_storage s =
     [state_file s, Some EmptyFile, Some (StateJson (last_processed_block s))]"

text \<open>
  What the source chain does in one polling cycle: the result of
  \<open>get_latest_block_number\<close>, the result of the filter query for a window, and the
  fault, if any, of the save that follows the window ending at a height.
\<close>

record cycle_env =
  latest_block :: "py_error + int"
  rpc_events :: "int \<Rightarrow> int \<Rightarrow> py_error + event list"
  save_faults :: "int \<Rightarrow> save_fault"

text \<open>\<open>BridgeContractHandler.fetch_events\<close>: each of its three \<open>except\<close> clauses returns \<open>[]\<close>.\<close>

definition fetch_events :: "cycle_env \<Rightarrow> int \<Rightarrow> int \<Rightarrow> event list" where
  "fetch_events env from_block to_block =
     (case rpc_events env from_block to_block of
        Inr events \<Rightarrow> events
      | Inl e \<Rightarrow> if e = BlockNotFound then [] else if e = ReadTimeout then [] else [])"

definition BLOCK_PROCESSING_CHUNK_SIZE :: int where
  "BLOCK_PROCESSING_CHUNK_SIZE = 100"

text \<open>
  Python's \<open>range(start, stop, step)\<close> for a positive step. \<open>_run_cycle\<close> calls it with
  \<open>start < stop\<close>, where a negative step gives the empty range as well; step 0 raises
  \<open>ValueError\<close>, which \<open>run_cycle\<close> below handles before the call.
\<close>

function py_range :: "int \<Rightarrow> int \<Rightarrow> int \<Rightarrow> int list" where
  "py_range start stop step =
     (if 0 < step \<and> start < stop then start # py_range (start + step) stop step else [])"
  by pat_completeness auto
termination
  by (relation "measure (\<lambda>(start, stop, step). nat (stop - start))") auto

declare py_range.simps [simp del]

text \<open>The body of the \<open>for block_num in range(...)\<close> loop of \<open>_run_cycle\<close>.\<close>

definition chunk_step :: "int \<Rightarrow> int \<Rightarrow> cycle_env \<Rightarrow> int \<Rightarrow> int \<Rightarrow> listener \<Rightarrow> listener" where
  "chunk_step chain_id chunk env latest block_num s =
     (let from_block = block_num;
          to_block = min (block_num + chunk - 1) latest;
          events = fetch_events env from_block to_block;
          s1 = s\<lparr>fetched := fetched s @ [(from_block, to_block)]\<rparr>;
          s2 = s1\<lparr>event_handler := process_events chain_id events (event_handler s1)\<rparr>;
          s3 = s2\<lparr>last_processed_block := to_block\<rparr>
      in save_state (save_faults env to_block) s3)"

text \<open>
  \<open>_run_cycle\<close> with destination chain \<open>chain_id\<close> and chunk size \<open>chunk\<close>. An
  exception of \<open>get_latest_block_number\<close>, and the \<open>ValueError\<close> of a zero step, are
  caught by the cycle's \<open>except\<close> clauses, which log and leave the state as it is.
\<close>

definition run_cycle :: "int \<Rightarrow> int \<Rightarrow> cycle_env \<Rightarrow> listener \<Rightarrow> listener" where
  "run_cycle chain_id chunk env s =
     (case latest_block env of
        Inl e \<Rightarrow> s
      | Inr latest \<Rightarrow>
          let start_block = last_processed_block s + 1 in
          if start_block > latest then s
          else if chunk = 0 then s
          else foldl (\<lambda>s' block_num. chunk_step chain_id chunk env latest block_num s')
                 s (py_range start_block (latest + 1) chunk))"

text \<open>
  The states after each iteration of a loop with body \<open>f\<close>: after each chunk of a cycle
  (\<open>cycle_states\<close>) and after each cycle of the \<open>while True\<close> loop of \<open>run\<close>
  (\<open>run_states\<close>).
\<close>

fun states_after :: "('a \<Rightarrow> 's \<Rightarrow> 's) \<Rightarrow> 'a list \<Rightarrow> 's \<Rightarrow> 's list" where
  "states_after f [] s = []"
| "states_after f (x # xs) s = f x s # states_after f xs (f x s)"

definition cycle_states :: "int \<Rightarrow> int \<Rightarrow> cycle_env \<Rightarrow> listener \<Rightarrow> listener list" where
  "cycle_states chain_id chunk env s =
     (case latest_block env of
        Inl e \<Rightarrow> []
      | Inr latest \<Rightarrow>
          let start_block = last_processed_block s + 1 in
          if start_block > latest then []
          else if chunk = 0 then []
          else states_after (chunk_step chain_id chunk env latest)
                 (py_range start_block (latest + 1) chunk) s)"

definition run_cycles :: "int \<Rightarrow> int \<Rightarrow> cycle_env list \<Rightarrow> listener \<Rightarrow> listener" where
  "run_cycles chain_id chunk envs s = foldl (\<lambda>s' env. run_cycle chain_id chunk env s') s envs"

definition run_states :: "int \<Rightarrow> int \<Rightarrow> cycle_env list \<Rightarrow> listener \<Rightarrow> listener list" where
  "run_states chain_id chunk envs s = states_after (run_cycle chain_id chunk) envs s"

text \<open>The windows of a cycle that starts at \<open>start_block\<close> with chain height \<open>latest\<close>.\<close>

definition windows :: "int \<Rightarrow> int \<Rightarrow> int \<Rightarrow> (int \<times> int) list" where
  "windows chunk start_block latest =
     map (\<lambda>block_num. (block_num, min (block_num + chunk - 1) latest))
       (py_range start_block (latest + 1) chunk)"

text \<open>
  \<open>_load_state\<close>, called by \<open>__init__\<close> on the state \<open>{"last_processed_block": 0}\<close>.
  \<open>open_fails\<close> says that opening or reading the file raises \<open>IOError\<close>;
  \<open>first_latest\<close> and \<open>second_latest\<close> are the results of the first and of the second
  call of \<open>get_latest_block_number\<close>. The \<open>except\<close> clause catches \<open>JSONDecodeError\<close>
  and \<open>IOError\<close>, so also a \<open>ConnectionError\<close> raised at line 281, and asks for the
  chain height again; any other exception leaves \<open>__init__\<close>.

  The result is the value of \<open>self.state['last_processed_block']\<close> when \<open>_load_state\<close>
  returns: \<open>Block n\<close> for the integer \<open>n\<close>, and \<open>NotABlock\<close> for the value of a
  \<open>StateNotInt\<close> file, which is loaded as it is. With such a value every cycle raises
  \<open>TypeError\<close> between lines 312 and 321, which line 340 catches, so that the state
  never changes; the record \<open>listener\<close> above holds integer checkpoints only.
\<close>

datatype state_value = Block int | NotABlock

record init_env =
  open_fails :: bool
  first_latest :: "py_error + int"
  second_latest :: "py_error + int"

definition seed :: "py_error + int \<Rightarrow> py_error + state_value" where
  "seed latest = (case latest of Inl e \<Rightarrow> Inl e | Inr h \<Rightarrow> Inr (Block (h - 1)))"

definition load_state :: "init_env \<Rightarrow> file_content option \<Rightarrow> py_error + state_value" where
  "load_state env file =
     (let tried =
        (case file of
           Some content \<Rightarrow>
             if open_fails env then Inl IOError
             else (case content of
                     EmptyFile \<Rightarrow> Inl JSONDecodeError
                   | NotJson \<Rightarrow> Inl JSONDecodeError
                   | NotUtf8 \<Rightarrow> Inl UnicodeDecodeError
                   | StateJson n \<Rightarrow> Inr (Block n)
                   | StateNotInt \<Rightarrow> Inr NotABlock
                   | ObjectWithoutKey \<Rightarrow> Inl KeyError
                   | NotObject \<Rightarrow> Inl TypeError)
         | None \<Rightarrow> seed (first_latest env))
      in case tried of
           Inr v \<Rightarrow> Inr v
         | Inl e \<Rightarrow>
             if e = JSONDecodeError \<or> is_IOError e
             then seed (if file = None then second_latest env else first_latest env)
             else Inl e)"

text \<open>
  A listener with checkpoint \<open>n\<close> saved and nothing handled yet; a chain at height
  \<open>latest\<close> without events and without faults; and the same chain with a
  \<open>ReadTimeout\<close> of the query for the window from \<open>a\<close> to \<open>b\<close>.
\<close>

definition listener_at :: "int \<Rightarrow> listener" where
  "listener_at n =
     \<lparr>last_processed_block = n, state_file = Some (StateJson n),
      event_handler = CrossChainEventHandler_init, fetched = []\<rparr>"

definition quiet_chain :: "int \<Rightarrow> cycle_env" where
  "quiet_chain latest =
     \<lparr>latest_block = Inr latest, rpc_events = (\<lambda>from_block to_block. Inr []),
      save_faults = (\<lambda>to_block. NoFault)\<rparr>"

definition faulty_chain :: "int \<Rightarrow> int \<Rightarrow> int \<Rightarrow> cycle_env" where
  "faulty_chain latest a b =
     \<lparr>latest_block = Inr latest,
      rpc_events = (\<lambda>from_block to_block.
         if from_block = a \<and> to_block = b then Inl ReadTimeout else Inr []),
      save_faults = (\<lambda>to_block. NoFault)\<rparr>"

section \<open>Sighting probabilities (animal_sighting.py)\<close>

text \<open>
  A Python string is a sequence of Unicode code points; \<open>str\<close> gives the code points
  of an ASCII literal.
\<close>

type_synonym py_str = "nat list"

definition str :: "string \<Rightarrow> py_str" where
  "str s = map of_char s"

datatype WeatherCondition = SUNNY | RAINY | CLOUDY | NIGHT

text \<open>
  The argument \<open>weather\<close> is a member of the enumeration or a string; the call
  \<open>WeatherCondition(weather)\<close> returns a member as it is, looks a string up among the
  members' values, and raises \<open>ValueError\<close> (here \<open>None\<close>) for any other string.
\<close>

datatype weather_arg = Member WeatherCondition | Str py_str

fun WeatherCondition_of :: "weather_arg \<Rightarrow> WeatherCondition option" where
  "WeatherCondition_of (Member w) = Some w"
| "WeatherCondition_of (Str v) =
     (if v = str ''sunny'' then Some SUNNY
      else if v = str ''rainy'' then Some RAINY
      else if v = str ''cloudy'' then Some CLOUDY
      else if v = str ''night'' then Some NIGHT
      else None)"

definition BASE_PROBABILITIES :: "py_str \<rightharpoonup> int" where
  "BASE_PROBABILITIES =
     map_of [(str ''lion'', 30), (str ''elephant'', 60), (str ''giraffe'', 55),
             (str ''zebra'', 70), (str ''rhino'', 15), (str ''leopard'', 10),
             (str ''hippo'', 40)]"

fun WEATHER_MODIFIERS :: "WeatherCondition \<rightharpoonup> (py_str \<rightharpoonup> int)" where
  "WEATHER_MODIFIERS SUNNY =
     Some (map_of [(str ''lion'', -5), (str ''elephant'', 5), (str ''hippo'', 15),
                   (str ''leopard'', -8)])"
| "WEATHER_MODIFIERS RAINY =
     Some (map_of [(str ''lion'', -10), (str ''elephant'', -5), (str ''rhino'', 10),
                   (str ''hippo'', -10), (str ''zebra'', -15)])"
| "WEATHER_MODIFIERS CLOUDY =
     Some (map_of [(str ''lion'', 15), (str ''rhino'', 5), (str ''leopard'', 5)])"
| "WEATHER_MODIFIERS NIGHT =
     Some (map_of [(str ''lion'', 25), (str ''rhino'', 15), (str ''leopard'', 30),
                   (str ''elephant'', -20), (str ''giraffe'', -20)])"

text \<open>
  \<open>str.lower\<close> goes through the string character by character. An ASCII character is
  mapped by \<open>lower_ascii\<close>: the letters A to Z to a to z, any other to itself. For a
  character above 127 the result comes from the Unicode case table of the Python library,
  which is not part of the repository, and may be several characters and depend on the
  context (the final sigma); it is the parameter \<open>lower_full\<close>, applied to the string and
  the position.
\<close>

definition lower_ascii :: "nat \<Rightarrow> nat" where
  "lower_ascii c = (if 65 \<le> c \<and> c \<le> 90 then c + 32 else c)"

definition lower :: "(py_str \<Rightarrow> nat \<Rightarrow> py_str) \<Rightarrow> py_str \<Rightarrow> py_str" where
  "lower lower_full s =
     concat (map (\<lambda>(i, c). if c < 128 then [lower_ascii c] else lower_full s i)
               (enumerate 0 s))"

text \<open>
  \<open>str.strip\<close> removes from both ends the characters for which \<open>str.isspace\<close> holds:
  the controls 9 to 13 and 28 to 31, the space, U+0085, U+00A0, U+1680, U+2000 to U+200A,
  U+2028, U+2029, U+202F, U+205F and U+3000.
\<close>

definition is_space :: "nat \<Rightarrow> bool" where
  "is_space c =
     ((0x09 \<le> c \<and> c \<le> 0x0D) \<or> (0x1C \<le> c \<and> c \<le> 0x20) \<or> c = 0x85 \<or> c = 0xA0
      \<or> c = 0x1680 \<or> (0x2000 \<le> c \<and> c \<le> 0x200A) \<or> c = 0x2028 \<or> c = 0x2029
      \<or> c = 0x202F \<or> c = 0x205F \<or> c = 0x3000)"

definition strip :: "py_str \<Rightarrow> py_str" where
  "strip s = rev (dropWhile is_space (rev (dropWhile is_space s)))"

text \<open>
  \<open>sighting_percent\<close> is \<open>clamped_prob\<close>, with \<open>None\<close> for the early return of an
  animal that is not in the table; \<open>get_sighting_probability\<close> is the value returned,
  \<open>clamped_prob / 100.0\<close>, as a real number.
\<close>

definition sighting_percent ::
  "(py_str \<Rightarrow> nat \<Rightarrow> py_str) \<Rightarrow> py_str \<Rightarrow> weather_arg \<Rightarrow> int option" where
  "sighting_percent lower_full animal_name weather =
     (let animal_key = strip (lower lower_full animal_name) in
      case BASE_PROBABILITIES animal_key of
        None \<Rightarrow> None
      | Some base_prob \<Rightarrow>
          let weather_condition = WeatherCondition_of weather;
              modifier =
                (case weather_condition of
                   None \<Rightarrow> 0
                 | Some w \<Rightarrow>
                     (case WEATHER_MODIFIERS w of
                        None \<Rightarrow> 0
                      | Some m \<Rightarrow> (case m animal_key of None \<Rightarrow> 0 | Some v \<Rightarrow> v)));
              final_prob = base_prob + modifier;
              clamped_prob = max 0 (min 100 final_prob)
          in Some clamped_prob)"

definition get_sighting_probability ::
  "(py_str \<Rightarrow> nat \<Rightarrow> py_str) \<Rightarrow> py_str \<Rightarrow> weather_arg \<Rightarrow> real" where
  "get_sighting_probability lower_full animal_name weather =
     (case sighting_percent lower_full animal_name weather of
        None \<Rightarrow> 0
      | Some clamped_prob \<Rightarrow> real_of_int clamped_prob / 100)"

section \<open>Properties of the event handler\<close>

lemma process_event_cache:
  "processed_events (snd (process_event c ev h)) =
     (if fst (process_event c ev h) = Dispatched
      then (case transactionHash ev of Some tx \<Rightarrow> insert tx (processed_events h) | None \<Rightarrow> processed_events h)
      else processed_events h)"
  by (simp add: process_event_def raised_def emit_def Let_def split: option.splits)

lemma process_event_Dispatched_iff:
  "fst (process_event c ev h) = Dispatched \<longleftrightarrow>
     (\<exists>tx a amt rcp n. transactionHash ev = Some tx \<and> tx \<notin> processed_events h \<and> args ev = Some a
        \<and> destinationChainId a = Some c \<and> amount a = Some amt \<and> recipient a = Some rcp
        \<and> nonce a = Some n)"
  by (auto simp add: process_event_def raised_def emit_def Let_def split: option.splits)

lemma process_event_Dispatched_emitted:
  "fst (process_event c ev h) = Dispatched \<Longrightarrow>
     \<exists>tx a amt rcp n. transactionHash ev = Some tx \<and> args ev = Some a
        \<and> amount a = Some amt \<and> recipient a = Some rcp \<and> nonce a = Some n \<and>
       emitted (snd (process_event c ev h)) =
         emitted h @ [ProcessingNew tx, ActionRequired c, MintUnlock amt rcp, SourceTx tx n]"
  by (auto simp add: process_event_def raised_def emit_def Let_def split: option.splits if_splits)

lemma process_event_count:
  "dispatch_count tx (snd (process_event c ev h)) =
     dispatch_count tx h +
       (if fst (process_event c ev h) = Dispatched \<and> transactionHash ev = Some tx then 1 else 0)"
  by (auto simp add: process_event_def raised_def emit_def Let_def dispatch_count_def split: option.splits)



lemma process_events_cache_mono:
  "processed_events h \<subseteq> processed_events (process_events c evs h)"
proof (induction evs arbitrary: h)
  case Nil
  show ?case by simp
next
  case (Cons ev evs)
  have "processed_events h \<subseteq> processed_events (snd (process_event c ev h))"
    by (auto simp: process_event_cache split: option.splits)
  also have "\<dots> \<subseteq> processed_events (process_events c evs (snd (process_event c ev h)))"
    by (rule Cons.IH)
  finally show ?case by simp
qed

lemma cache_covers_step:
  assumes "cache_covers tx h"
  shows "cache_covers tx (snd (process_event c ev h))"
proof (cases "fst (process_event c ev h) = Dispatched")
  case False
  then show ?thesis using assms
    by (simp add: cache_covers_def process_event_count process_event_cache)
next
  case True
  then obtain tx' where tx': "transactionHash ev = Some tx'" "tx' \<notin> processed_events h"
    by (auto simp: process_event_Dispatched_iff)
  show ?thesis
  proof (cases "tx' = tx")
    case True
    with tx' assms have "dispatch_count tx h = 0" by (simp add: cache_covers_def)
    with True tx' \<open>fst (process_event c ev h) = Dispatched\<close> show ?thesis
      by (simp add: cache_covers_def process_event_count process_event_cache)
  next
    case False
    with tx' assms \<open>fst (process_event c ev h) = Dispatched\<close> show ?thesis
      by (simp add: cache_covers_def process_event_count process_event_cache)
  qed
qed

lemma cache_covers_events:
  "cache_covers tx h \<Longrightarrow> cache_covers tx (process_events c evs h)"
  by (induction evs arbitrary: h) (simp_all add: cache_covers_step)

lemma cache_covers_init: "cache_covers tx CrossChainEventHandler_init"
  by (simp add: cache_covers_def CrossChainEventHandler_init_def dispatch_count_def)

lemma process_event_duplicate:
  "transactionHash ev = Some tx \<Longrightarrow> tx \<in> processed_events h \<Longrightarrow>
     process_event c ev h = (SkippedDuplicate, emit (AlreadyProcessed tx) h)"
  by (simp add: process_event_def)

lemma process_event_wrong_chain:
  "transactionHash ev = Some tx \<Longrightarrow> tx \<notin> processed_events h \<Longrightarrow> args ev = Some a \<Longrightarrow>
   destinationChainId a = Some d \<Longrightarrow> d \<noteq> c \<Longrightarrow>
     process_event c ev h = (SkippedWrongChain, emit (WrongChain d) (emit (ProcessingNew tx) h))"
  by (simp add: process_event_def Let_def)

lemma actions_emit:
  "actions (emit l h) = (if is_action l then actions h @ [l] else actions h)"
  by (simp add: actions_def emit_def)

lemma processed_events_emit: "processed_events (emit l h) = processed_events h"
  by (simp add: emit_def)

lemma process_event_not_Dispatched:
  "fst (process_event c ev h) \<noteq> Dispatched \<Longrightarrow>
     processed_events (snd (process_event c ev h)) = processed_events h"
  by (simp add: process_event_cache)

lemma process_event_SkippedDuplicate_iff:
  "fst (process_event c ev h) = SkippedDuplicate \<longleftrightarrow>
     (\<exists>tx. transactionHash ev = Some tx \<and> tx \<in> processed_events h)"
  by (auto simp add: process_event_def raised_def emit_def Let_def split: option.splits)








section \<open>Properties of the listener and of the sighting table\<close>

lemma windows_rec:
  "windows W start latest =
     (if 0 < W \<and> start \<le> latest
      then (start, min (start + W - 1) latest) # windows W (start + W) latest else [])"
  unfolding windows_def by (subst py_range.simps) simp

lemma windows_induct:
  fixes W latest :: int
  assumes step: "\<And>start. (0 < W \<and> start \<le> latest \<Longrightarrow> P (start + W)) \<Longrightarrow> P start"
  shows "P start"
proof -
  have "stop = latest + 1 \<longrightarrow> stp = W \<longrightarrow> P a" for a stop stp
  proof (induction a stop stp rule: py_range.induct)
    case (1 start stop stp)
    show ?case
    proof (intro impI)
      assume eq: "stop = latest + 1" "stp = W"
      show "P start"
      proof (rule step)
        assume "0 < W \<and> start \<le> latest"
        with eq have "0 < stp \<and> start < stop" by simp
        from "1.IH" [OF this] eq show "P (start + W)" by simp
      qed
    qed
  qed
  then show ?thesis by simp
qed

lemma windows_bounds:
  "w \<in> set (windows W start latest) \<Longrightarrow>
     start \<le> fst w \<and> fst w \<le> snd w \<and> snd w \<le> latest \<and> snd w - fst w + 1 \<le> W"
proof (induction start rule: windows_induct [where W = W and latest = latest])
  case (1 start)
  show ?case
  proof (cases "0 < W \<and> start \<le> latest")
    case False
    with "1.prems" show ?thesis by (subst (asm) windows_rec) simp
  next
    case True
    with "1.prems" have "w = (start, min (start + W - 1) latest) \<or> w \<in> set (windows W (start + W) latest)"
      by (subst (asm) windows_rec) simp
    then show ?thesis
    proof
      assume "w = (start, min (start + W - 1) latest)"
      with True show ?thesis by auto
    next
      assume "w \<in> set (windows W (start + W) latest)"
      from "1.IH" [OF True this] True show ?thesis by simp
    qed
  qed
qed

lemma windows_union:
  "0 < W \<Longrightarrow> (\<Union>w\<in>set (windows W start latest). {fst w..snd w}) = {start..latest}"
proof (induction start rule: windows_induct [where W = W and latest = latest])
  case (1 start)
  show ?case
  proof (cases "start \<le> latest")
    case False
    then show ?thesis by (subst windows_rec) simp
  next
    case True
    with "1.prems" have IH: "(\<Union>w\<in>set (windows W (start + W) latest). {fst w..snd w}) = {start + W..latest}"
      by (intro "1.IH") simp_all
    have "(\<Union>w\<in>set (windows W start latest). {fst w..snd w})
        = {start..min (start + W - 1) latest} \<union> (\<Union>w\<in>set (windows W (start + W) latest). {fst w..snd w})"
      using True "1.prems" by (subst windows_rec) simp
    also have "\<dots> = {start..min (start + W - 1) latest} \<union> {start + W..latest}"
      by (simp only: IH)
    also have "\<dots> = {start..latest}"
      using True "1.prems" by auto
    finally show ?thesis .
  qed
qed

lemma windows_successively:
  "successively (\<lambda>w1 w2. snd w1 + 1 = fst w2) (windows W start latest)"
proof (induction start rule: windows_induct [where W = W and latest = latest])
  case (1 start)
  show ?case
  proof (cases "0 < W \<and> start \<le> latest")
    case False
    show ?thesis by (subst windows_rec) (simp add: False)
  next
    case True
    have rest: "windows W (start + W) latest = [] \<or>
        (start + W \<le> latest \<and> fst (hd (windows W (start + W) latest)) = start + W)"
      by (subst windows_rec, subst (2) windows_rec) simp
    have "successively (\<lambda>w1 w2. snd w1 + 1 = fst w2)
            ((start, min (start + W - 1) latest) # windows W (start + W) latest)"
      unfolding successively_Cons using rest "1.IH" [OF True] by auto
    with True show ?thesis by (subst windows_rec) simp
  qed
qed

lemma windows_sorted:
  "sorted_wrt (\<lambda>w1 w2. snd w1 < fst w2) (windows W start latest)"
proof (induction start rule: windows_induct [where W = W and latest = latest])
  case (1 start)
  show ?case
  proof (cases "0 < W \<and> start \<le> latest")
    case False
    show ?thesis by (subst windows_rec) (simp add: False)
  next
    case True
    have "min (start + W - 1) latest < fst w" if "w \<in> set (windows W (start + W) latest)" for w
      using windows_bounds [OF that] by simp
    with "1.IH" [OF True] True show ?thesis by (subst windows_rec) simp
  qed
qed

lemma windows_last:
  "0 < W \<Longrightarrow> start \<le> latest \<Longrightarrow> snd (last (windows W start latest)) = latest"
proof (induction start rule: windows_induct [where W = W and latest = latest])
  case (1 start)
  show ?case
  proof (cases "start + W \<le> latest")
    case True
    with "1.prems" have ne: "windows W (start + W) latest \<noteq> []"
      by (subst windows_rec) simp
    from "1.prems" True have "snd (last (windows W (start + W) latest)) = latest"
      by (intro "1.IH") simp_all
    with ne "1.prems" show ?thesis by (subst windows_rec) simp
  next
    case False
    then have "windows W (start + W) latest = []"
      by (subst windows_rec) simp
    with "1.prems" False show ?thesis by (subst windows_rec) simp
  qed
qed

lemma chunk_step_lpb:
  "last_processed_block (chunk_step c W env latest b s) = min (b + W - 1) latest"
  by (simp add: chunk_step_def Let_def save_state_def split: save_fault.splits)

lemma chunk_step_fetched:
  "fetched (chunk_step c W env latest b s) = fetched s @ [(b, min (b + W - 1) latest)]"
  by (simp add: chunk_step_def Let_def save_state_def split: save_fault.splits)

lemma foldl_states_after: "foldl (\<lambda>s' x. f x s') s xs = last (s # states_after f xs s)"
  by (induction xs arbitrary: s) simp_all

lemma states_after_chunk_lpb:
  "map last_processed_block (states_after (chunk_step c W env latest) bs s)
     = map (\<lambda>b. min (b + W - 1) latest) bs"
  by (induction bs arbitrary: s) (simp_all add: chunk_step_lpb)

lemma foldl_chunk_fetched:
  "fetched (foldl (\<lambda>s' b. chunk_step c W env latest b s') s bs)
     = fetched s @ map (\<lambda>b. (b, min (b + W - 1) latest)) bs"
  by (induction bs arbitrary: s) (simp_all add: chunk_step_fetched)

lemma windows_empty: "latest < start \<or> W \<le> 0 \<Longrightarrow> windows W start latest = []"
  by (subst windows_rec) auto

lemma run_cycle_last: "run_cycle c W env s = last (s # cycle_states c W env s)"
  by (simp add: run_cycle_def cycle_states_def Let_def foldl_states_after split: sum.splits)

lemma run_cycle_fetched:
  assumes "latest_block env = Inr latest"
  shows "fetched (run_cycle c W env s) = fetched s @ windows W (last_processed_block s + 1) latest"
proof (cases "last_processed_block s + 1 > latest \<or> W = 0")
  case True
  then have "windows W (last_processed_block s + 1) latest = []"
    by (intro windows_empty) auto
  with True assms show ?thesis by (auto simp: run_cycle_def)
next
  case False
  with assms show ?thesis
    by (simp add: run_cycle_def foldl_chunk_fetched windows_def)
qed

lemma cycle_states_lpb:
  assumes "latest_block env = Inr latest"
  shows "map last_processed_block (cycle_states c W env s)
       = map snd (windows W (last_processed_block s + 1) latest)"
proof (cases "last_processed_block s + 1 > latest \<or> W = 0")
  case True
  then have "windows W (last_processed_block s + 1) latest = []"
    by (intro windows_empty) auto
  with True assms show ?thesis by (auto simp: cycle_states_def)
next
  case False
  with assms show ?thesis
    by (simp add: cycle_states_def states_after_chunk_lpb windows_def comp_def)
qed

lemma cycle_states_no_latest:
  "latest_block env = Inl e \<Longrightarrow> cycle_states c W env s = []"
  by (simp add: cycle_states_def)

lemma windows_snd_sorted:
  "sorted ((start - 1) # map snd (windows W start latest))"
proof -
  have "sorted_wrt (\<lambda>w1 w2. snd w1 \<le> snd w2) (windows W start latest)"
  proof (rule sorted_wrt_mono_rel [OF _ windows_sorted])
    fix w1 w2
    assume "w1 \<in> set (windows W start latest)" "w2 \<in> set (windows W start latest)"
      and "snd w1 < fst w2"
    with windows_bounds [of w2 W start latest] show "snd w1 \<le> snd w2" by simp
  qed
  then have "sorted (map snd (windows W start latest))"
    by (simp add: sorted_map)
  moreover have "start - 1 \<le> snd w" if "w \<in> set (windows W start latest)" for w
    using windows_bounds [OF that] by simp
  ultimately show ?thesis by auto
qed

lemma cycle_states_sorted:
  "sorted (map last_processed_block (s # cycle_states c W env s))"
proof (cases "latest_block env")
  case (Inl e)
  then show ?thesis by (simp add: cycle_states_no_latest)
next
  case (Inr latest)
  with windows_snd_sorted [of "last_processed_block s + 1" W latest]
  show ?thesis by (simp add: cycle_states_lpb)
qed

lemma sorted_le_last: "sorted (x # xs) \<Longrightarrow> x \<le> last (x # xs)"
  by (cases xs rule: rev_cases) (auto simp: sorted_append)

lemma run_cycle_mono: "last_processed_block s \<le> last_processed_block (run_cycle c W env s)"
proof -
  let ?xs = "map last_processed_block (cycle_states c W env s)"
  have "sorted (last_processed_block s # ?xs)"
    using cycle_states_sorted [of s c W env] by simp
  then have "last_processed_block s \<le> last (last_processed_block s # ?xs)"
    by (rule sorted_le_last)
  also have "last (last_processed_block s # ?xs)
      = last (map last_processed_block (s # cycle_states c W env s))"
    by simp
  also have "\<dots> = last_processed_block (last (s # cycle_states c W env s))"
    by (rule last_map) simp
  finally show ?thesis by (simp only: run_cycle_last)
qed

lemma states_after_sorted:
  fixes g :: "'s \<Rightarrow> int"
  assumes "\<And>x s. g s \<le> g (f x s)"
  shows "sorted (map g (s # states_after f xs s))"
proof (induction xs arbitrary: s)
  case Nil
  show ?case by simp
next
  case (Cons x xs)
  from Cons.IH [of "f x s"] assms [of s x] show ?case by (simp del: sorted_wrt.simps add: sorted2)
qed

lemma cycle_states_le_latest:
  assumes "latest_block env = Inr latest" and "s' \<in> set (cycle_states c W env s)"
  shows "last_processed_block s' \<le> latest"
proof -
  from assms(2) have "last_processed_block s' \<in> set (map last_processed_block (cycle_states c W env s))"
    by simp
  then obtain w where "w \<in> set (windows W (last_processed_block s + 1) latest)"
    and "last_processed_block s' = snd w"
    unfolding cycle_states_lpb [OF assms(1)] by auto
  with windows_bounds [of w] show ?thesis by simp
qed

lemma run_cycle_lpb:
  assumes "latest_block env = Inr latest" and "last_processed_block s + 1 \<le> latest" and "0 < W"
  shows "last_processed_block (run_cycle c W env s) = latest"
proof -
  let ?ws = "windows W (last_processed_block s + 1) latest"
  from assms have ne: "?ws \<noteq> []" by (subst windows_rec) simp
  then have ne': "cycle_states c W env s \<noteq> []"
    using cycle_states_lpb [OF assms(1), of c W s] by auto
  have "last_processed_block (run_cycle c W env s)
      = last_processed_block (last (cycle_states c W env s))"
    using ne' by (simp add: run_cycle_last)
  also have "\<dots> = last (map last_processed_block (cycle_states c W env s))"
    using ne' by (simp add: last_map)
  also have "\<dots> = last (map snd ?ws)"
    by (simp only: cycle_states_lpb [OF assms(1)])
  also have "\<dots> = snd (last ?ws)"
    using ne by (simp add: last_map)
  also have "\<dots> = latest"
    using assms by (intro windows_last) simp_all
  finally show ?thesis .
qed

lemma seed_Inr: "seed (Inr h) = Inr (Block (h - 1))"
  by (simp add: seed_def)

lemma load_state_undecodable:
  assumes "content \<in> {EmptyFile, NotJson} \<or> open_fails env"
  shows "load_state env (Some content) = seed (first_latest env)"
proof (cases "open_fails env")
  case True
  then show ?thesis by (simp add: load_state_def)
next
  case False
  with assms have "content = EmptyFile \<or> content = NotJson" by simp
  with False show ?thesis by (auto simp: load_state_def)
qed

lemma load_state_missing:
  "first_latest env = Inr h \<Longrightarrow> load_state env None = Inr (Block (h - 1))"
  by (simp add: load_state_def seed_def)

lemma load_state_unusable:
  assumes "stored \<in> {None, Some EmptyFile, Some NotJson} \<or> open_fails env"
    and "first_latest env = Inr h"
  shows "load_state env stored = Inr (Block (h - 1))"
proof (cases stored)
  case None
  with assms(2) show ?thesis by (simp add: load_state_missing)
next
  case (Some content)
  with assms(1) have "content \<in> {EmptyFile, NotJson} \<or> open_fails env" by auto
  from load_state_undecodable [OF this] Some assms(2) show ?thesis by (simp add: seed_Inr)
qed

lemma cache_covers_run:
  "dispatch_count tx (process_events c evs CrossChainEventHandler_init)
     = (if tx \<in> processed_events (process_events c evs CrossChainEventHandler_init)
        then 1 else 0)"
  using cache_covers_events [OF cache_covers_init, of tx c evs] by (simp add: cache_covers_def)

lemma sighting_percent_range:
  "sighting_percent u a w = Some p \<Longrightarrow> 0 \<le> p \<and> p \<le> 100"
  by (auto simp: sighting_percent_def Let_def split: option.splits)

section \<open>The claims\<close>

text \<open>
  Claim C3, as the handler implements it. A delivery is rejected by the dedup filter
  exactly when an action has been emitted before for its source transaction. So once an
  event has been dispatched, every later delivery of an event with the same source
  transaction, whatever was handled in between, takes the duplicate return and emits only
  the warning; a delivery whose transaction has not been dispatched before is not
  rejected; and a handler that starts with an empty cache emits at most one action for
  any source transaction.
\<close>

theorem dedup_after_dispatch:
  "dispatch_count tx (process_events c evs CrossChainEventHandler_init) \<le> 1 \<and>
   (fst (process_event c e h) = Dispatched \<longrightarrow> transactionHash e' = transactionHash e \<longrightarrow>
      (\<exists>tx'. transactionHash e = Some tx' \<and>
         process_event c e' (process_events c evs' (snd (process_event c e h))) =
           (SkippedDuplicate,
            emit (AlreadyProcessed tx') (process_events c evs' (snd (process_event c e h)))))) \<and>
   (fst (process_event c e (process_events c evs CrossChainEventHandler_init)) = SkippedDuplicate)
     = (\<exists>tx'. transactionHash e = Some tx' \<and>
          dispatch_count tx' (process_events c evs CrossChainEventHandler_init) = 1)"
proof (intro conjI impI)
  have "cache_covers tx (process_events c evs CrossChainEventHandler_init)"
    by (rule cache_covers_events [OF cache_covers_init])
  then show "dispatch_count tx (process_events c evs CrossChainEventHandler_init) \<le> 1"
    by (simp add: cache_covers_def split: if_splits)
next
  assume d: "fst (process_event c e h) = Dispatched"
    and same: "transactionHash e' = transactionHash e"
  from d obtain tx' where tx': "transactionHash e = Some tx'"
    by (auto simp: process_event_Dispatched_iff)
  with d have "tx' \<in> processed_events (snd (process_event c e h))"
    by (simp add: process_event_cache)
  then have "tx' \<in> processed_events (process_events c evs' (snd (process_event c e h)))"
    using process_events_cache_mono by blast
  with tx' same show "\<exists>tx'. transactionHash e = Some tx' \<and>
         process_event c e' (process_events c evs' (snd (process_event c e h))) =
           (SkippedDuplicate,
            emit (AlreadyProcessed tx') (process_events c evs' (snd (process_event c e h))))"
    by (simp add: process_event_duplicate)
next
  let ?h = "process_events c evs CrossChainEventHandler_init"
  have "(\<exists>tx'. transactionHash e = Some tx' \<and> tx' \<in> processed_events ?h)
      = (\<exists>tx'. transactionHash e = Some tx' \<and> dispatch_count tx' ?h = 1)"
    by (auto simp add: cache_covers_run)
  then show "(fst (process_event c e ?h) = SkippedDuplicate)
     = (\<exists>tx'. transactionHash e = Some tx' \<and> dispatch_count tx' ?h = 1)"
    by (simp only: process_event_SkippedDuplicate_iff)
qed

theorem dedup_after_dispatch_witness:
  "batch_outcomes 80001 [deposit ''tx1'' 80001, deposit ''tx1'' 80001] CrossChainEventHandler_init
     = [Dispatched, SkippedDuplicate] \<and>
   batch_outcomes 80001 [deposit ''tx1'' 80001, deposit ''tx1'' 1, deposit ''tx1'' 80001]
     CrossChainEventHandler_init = [Dispatched, SkippedDuplicate, SkippedDuplicate] \<and>
   batch_outcomes 80001 [deposit ''tx1'' 1, deposit ''tx1'' 1, deposit ''tx1'' 80001]
     CrossChainEventHandler_init = [SkippedWrongChain, SkippedWrongChain, Dispatched] \<and>
   dispatch_count ''tx1''
     (process_events 80001 [deposit ''tx1'' 80001, deposit ''tx1'' 1, deposit ''tx1'' 80001]
        CrossChainEventHandler_init) = 1"
  using dedup_after_dispatch [of "''tx1''" 80001
      "[deposit ''tx1'' 80001, deposit ''tx1'' 1]"
      "deposit ''tx1'' 80001" CrossChainEventHandler_init "deposit ''tx1'' 80001" "[]"]
  by (simp add: process_event_def deposit_def CrossChainEventHandler_init_def emit_def
      dispatch_count_def)

text \<open>
  Claim C3 as stated fails for a pair whose first event was not dispatched: after a
  deposit for another chain, a deposit of the same transaction for the configured chain
  is dispatched, not rejected.
\<close>

theorem second_delivery_not_rejected:
  "batch_outcomes DESTINATION_CHAIN_ID [deposit ''tx1'' 1, deposit ''tx1'' 80001]
     CrossChainEventHandler_init
     = [SkippedWrongChain, Dispatched]"
  by (simp add: process_event_def deposit_def CrossChainEventHandler_init_def emit_def
      DESTINATION_CHAIN_ID_def)

text \<open>
  Claim C5, as the handler implements it. An event for another destination chain makes no
  call to the action sink and leaves the dedup cache as it is. Its return is the
  wrong-chain skip when its transaction is not in the cache, after the two log lines
  \<open>ProcessingNew\<close> and \<open>WrongChain\<close>; the duplicate test comes first in
  \<open>process_event\<close>, so when the transaction is in the cache the return is the
  duplicate skip.
\<close>

theorem wrong_chain_skipped:
  assumes "args ev = Some a" and "destinationChainId a = Some d" and "d \<noteq> c"
    and "transactionHash ev = Some tx"
  shows "(tx \<notin> processed_events h \<longrightarrow>
            process_event c ev h
              = (SkippedWrongChain, emit (WrongChain d) (emit (ProcessingNew tx) h)))
       \<and> (tx \<in> processed_events h \<longrightarrow>
            process_event c ev h = (SkippedDuplicate, emit (AlreadyProcessed tx) h))
       \<and> actions (snd (process_event c ev h)) = actions h
       \<and> processed_events (snd (process_event c ev h)) = processed_events h"
proof (cases "tx \<in> processed_events h")
  case True
  with assms have "process_event c ev h = (SkippedDuplicate, emit (AlreadyProcessed tx) h)"
    by (simp add: process_event_duplicate)
  with True show ?thesis by (simp add: actions_emit processed_events_emit)
next
  case False
  with assms have "process_event c ev h
      = (SkippedWrongChain, emit (WrongChain d) (emit (ProcessingNew tx) h))"
    by (simp add: process_event_wrong_chain)
  with False show ?thesis by (simp add: actions_emit processed_events_emit)
qed

theorem wrong_chain_skipped_witness:
  "process_event DESTINATION_CHAIN_ID (deposit ''tx1'' 1) CrossChainEventHandler_init
     = (SkippedWrongChain,
        \<lparr>processed_events = {}, emitted = [ProcessingNew ''tx1'', WrongChain 1]\<rparr>)"
  using wrong_chain_skipped [of "deposit ''tx1'' 1"
      "\<lparr>destinationChainId = Some 1, amount = Some 5, recipient = Some ''R'', nonce = Some 1\<rparr>"
      1 DESTINATION_CHAIN_ID "''tx1''" CrossChainEventHandler_init]
  by (simp add: deposit_def DESTINATION_CHAIN_ID_def CrossChainEventHandler_init_def emit_def)

text \<open>
  Claim C5 as stated fails when the transaction is already in the cache: after the deposit
  of \<open>tx1\<close> for the configured chain has been dispatched, an event of \<open>tx1\<close> for
  chain 1 returns the duplicate skip, not the wrong-chain skip.
\<close>

theorem wrong_chain_after_dispatch:
  "fst (process_event DESTINATION_CHAIN_ID (deposit ''tx1'' 1)
         (process_events DESTINATION_CHAIN_ID [deposit ''tx1'' 80001] CrossChainEventHandler_init))
     = SkippedDuplicate"
  by (simp add: process_event_def deposit_def CrossChainEventHandler_init_def emit_def
      DESTINATION_CHAIN_ID_def)

text \<open>
  Claim C9. A transaction enters the dedup cache only on the dispatch path, after the
  action line \<open>SourceTx\<close> has been emitted. On every other path the cache and the
  number of actions emitted for any transaction are unchanged; so after a wrong-chain skip
  or a failure the event's transaction is not in the cache, and a later deposit of that
  transaction for the configured chain is dispatched.
\<close>

theorem cache_only_after_dispatch:
  "(fst (process_event c ev h) = Dispatched \<longrightarrow>
      (\<exists>tx n pre. transactionHash ev = Some tx \<and>
         emitted (snd (process_event c ev h)) = emitted h @ pre @ [SourceTx tx n] \<and>
         processed_events (snd (process_event c ev h)) = insert tx (processed_events h)))
   \<and> (fst (process_event c ev h) \<noteq> Dispatched \<longrightarrow>
        processed_events (snd (process_event c ev h)) = processed_events h \<and>
        dispatch_count tx' (snd (process_event c ev h)) = dispatch_count tx' h)
   \<and> (fst (process_event c ev h) \<in> {SkippedWrongChain, Failed} \<longrightarrow>
        transactionHash ev = Some tx' \<longrightarrow>
        tx' \<notin> processed_events (snd (process_event c ev h)) \<and>
        fst (process_event c (deposit tx' c) (snd (process_event c ev h))) = Dispatched)"
proof (intro conjI impI)
  assume d: "fst (process_event c ev h) = Dispatched"
  from process_event_Dispatched_emitted [OF d]
  obtain tx a amt rcp n where tx: "transactionHash ev = Some tx"
    and a: "args ev = Some a" "amount a = Some amt" "recipient a = Some rcp"
    and em: "emitted (snd (process_event c ev h)) =
         emitted h @ [ProcessingNew tx, ActionRequired c, MintUnlock amt rcp, SourceTx tx n]"
    by blast
  from em have "emitted (snd (process_event c ev h)) =
         emitted h @ [ProcessingNew tx, ActionRequired c, MintUnlock amt rcp] @ [SourceTx tx n]"
    by simp
  moreover from d tx have "processed_events (snd (process_event c ev h)) = insert tx (processed_events h)"
    by (simp add: process_event_cache)
  ultimately show "\<exists>tx n pre. transactionHash ev = Some tx \<and>
         emitted (snd (process_event c ev h)) = emitted h @ pre @ [SourceTx tx n] \<and>
         processed_events (snd (process_event c ev h)) = insert tx (processed_events h)"
    using tx by blast
next
  assume "fst (process_event c ev h) \<noteq> Dispatched"
  then show "processed_events (snd (process_event c ev h)) = processed_events h"
    by (rule process_event_not_Dispatched)
next
  assume "fst (process_event c ev h) \<noteq> Dispatched"
  then show "dispatch_count tx' (snd (process_event c ev h)) = dispatch_count tx' h"
    by (simp add: process_event_count)
next
  assume o: "fst (process_event c ev h) \<in> {SkippedWrongChain, Failed}"
    and tx': "transactionHash ev = Some tx'"
  from o have "fst (process_event c ev h) \<noteq> SkippedDuplicate" by auto
  with tx' have fresh: "tx' \<notin> processed_events h"
    by (simp add: process_event_SkippedDuplicate_iff)
  from o have "fst (process_event c ev h) \<noteq> Dispatched" by auto
  then have "processed_events (snd (process_event c ev h)) = processed_events h"
    by (rule process_event_not_Dispatched)
  with fresh show fresh': "tx' \<notin> processed_events (snd (process_event c ev h))" by simp
  then show "fst (process_event c (deposit tx' c) (snd (process_event c ev h))) = Dispatched"
    by (simp add: process_event_Dispatched_iff deposit_def)
qed

theorem cache_only_after_dispatch_witness:
  "batch_outcomes 80001
     [deposit ''tx1'' 1, \<lparr>transactionHash = Some ''tx1'', args = None\<rparr>, deposit ''tx1'' 80001]
     CrossChainEventHandler_init = [SkippedWrongChain, Failed, Dispatched]
   \<and> processed_events (process_events 80001
       [deposit ''tx1'' 1, \<lparr>transactionHash = Some ''tx1'', args = None\<rparr>]
       CrossChainEventHandler_init) = {}
   \<and> processed_events (process_events 80001
       [deposit ''tx1'' 1, \<lparr>transactionHash = Some ''tx1'', args = None\<rparr>, deposit ''tx1'' 80001]
       CrossChainEventHandler_init) = {''tx1''}"
  using cache_only_after_dispatch [of 80001 "deposit ''tx1'' 1" CrossChainEventHandler_init "''tx1''"]
    cache_only_after_dispatch [of 80001 "deposit ''tx1'' 80001" CrossChainEventHandler_init "''tx1''"]
  by (simp add: process_event_def deposit_def CrossChainEventHandler_init_def emit_def raised_def)





text \<open>
  Claim C1 does not hold of the code. With checkpoint 200, height 250 and a timeout of the
  query for the window from 201 to 250, the cycle sets the checkpoint to 250 and saves it,
  and the next cycle fetches nothing: the window is not fetched again.
\<close>

theorem fetch_fault_advances_checkpoint:
  "last_processed_block
     (run_cycle DESTINATION_CHAIN_ID BLOCK_PROCESSING_CHUNK_SIZE (faulty_chain 250 201 250)
        (listener_at 200)) = 250
   \<and> state_file
     (run_cycle DESTINATION_CHAIN_ID BLOCK_PROCESSING_CHUNK_SIZE (faulty_chain 250 201 250)
        (listener_at 200)) = Some (StateJson 250)
   \<and> fetched
     (run_cycles DESTINATION_CHAIN_ID BLOCK_PROCESSING_CHUNK_SIZE
        [faulty_chain 250 201 250, quiet_chain 250] (listener_at 200)) = [(201, 250)]"
  by (simp add: run_cycles_def run_cycle_def py_range.simps chunk_step_def fetch_events_def
      save_state_def Let_def quiet_chain_def faulty_chain_def listener_at_def
      BLOCK_PROCESSING_CHUNK_SIZE_def)

text \<open>
  Claim C2. The checkpoint never decreases: neither over the states after each cycle of a
  run, nor over the states after each chunk of one cycle, which are all the assignments
  to it; and every value assigned in a cycle is at most the chain height that the cycle
  read at its start.
\<close>

theorem checkpoint_monotone:
  "sorted (map last_processed_block (s # run_states c W envs s))
   \<and> run_cycles c W envs s = last (s # run_states c W envs s)
   \<and> sorted (map last_processed_block (s # cycle_states c W env s))
   \<and> run_cycle c W env s = last (s # cycle_states c W env s)
   \<and> (\<forall>s'\<in>set (cycle_states c W env s).
         \<exists>latest. latest_block env = Inr latest \<and> last_processed_block s' \<le> latest)"
proof (intro conjI ballI)
  show "sorted (map last_processed_block (s # run_states c W envs s))"
    unfolding run_states_def by (rule states_after_sorted) (rule run_cycle_mono)
  show "run_cycles c W envs s = last (s # run_states c W envs s)"
    unfolding run_cycles_def run_states_def by (rule foldl_states_after)
  show "sorted (map last_processed_block (s # cycle_states c W env s))"
    by (rule cycle_states_sorted)
  show "run_cycle c W env s = last (s # cycle_states c W env s)"
    by (rule run_cycle_last)
next
  fix s' assume s': "s' \<in> set (cycle_states c W env s)"
  show "\<exists>latest. latest_block env = Inr latest \<and> last_processed_block s' \<le> latest"
  proof (cases "latest_block env")
    case (Inl e)
    with s' show ?thesis by (simp add: cycle_states_no_latest)
  next
    case (Inr latest)
    with cycle_states_le_latest [OF Inr s'] show ?thesis by simp
  qed
qed

theorem checkpoint_monotone_witness:
  "map last_processed_block
     (listener_at 100 # run_states 80001 100 [quiet_chain 250, quiet_chain 250, quiet_chain 260]
        (listener_at 100)) = [100, 250, 250, 260]
   \<and> map last_processed_block (cycle_states 80001 100 (quiet_chain 250) (listener_at 100))
       = [200, 250]"
  using checkpoint_monotone [of "listener_at 100" 80001 100
      "[quiet_chain 250, quiet_chain 250, quiet_chain 260]" "quiet_chain 250"]
  by (simp add: run_states_def run_cycle_def cycle_states_def py_range.simps chunk_step_def
      fetch_events_def save_state_def Let_def quiet_chain_def listener_at_def)

text \<open>
  Claim C4. A cycle that starts at \<open>start\<close> with chain height \<open>latest\<close> and a positive
  chunk size fetches exactly the windows \<open>windows W start latest\<close>: their union is the
  range from \<open>start\<close> to \<open>latest\<close>, each is non-empty and spans at most \<open>W\<close>
  heights, each begins one above the end of the one before, each lies strictly below every
  later one, and after the last one the checkpoint is \<open>latest\<close>. The witness is the
  scenario with checkpoint 100, height 250 and chunk size 100.
\<close>

theorem chunking_exhaustive:
  assumes "start \<le> latest" and "0 < W"
    and "latest_block env = Inr latest" and "last_processed_block s = start - 1"
  shows "fetched (run_cycle c W env s) = fetched s @ windows W start latest
       \<and> (\<Union>w\<in>set (windows W start latest). {fst w..snd w}) = {start..latest}
       \<and> (\<forall>w\<in>set (windows W start latest). fst w \<le> snd w \<and> snd w - fst w + 1 \<le> W)
       \<and> successively (\<lambda>w1 w2. snd w1 + 1 = fst w2) (windows W start latest)
       \<and> sorted_wrt (\<lambda>w1 w2. snd w1 < fst w2) (windows W start latest)
       \<and> last_processed_block (run_cycle c W env s) = latest"
proof (intro conjI ballI)
  from assms(4) have start: "last_processed_block s + 1 = start" by simp
  show "fetched (run_cycle c W env s) = fetched s @ windows W start latest"
    using run_cycle_fetched [OF assms(3), of c W s] by (simp only: start)
  show "(\<Union>w\<in>set (windows W start latest). {fst w..snd w}) = {start..latest}"
    using assms(2) by (rule windows_union)
  show "successively (\<lambda>w1 w2. snd w1 + 1 = fst w2) (windows W start latest)"
    by (rule windows_successively)
  show "sorted_wrt (\<lambda>w1 w2. snd w1 < fst w2) (windows W start latest)"
    by (rule windows_sorted)
  show "last_processed_block (run_cycle c W env s) = latest"
    using assms start by (intro run_cycle_lpb) simp_all
next
  fix w assume "w \<in> set (windows W start latest)"
  from windows_bounds [OF this] show "fst w \<le> snd w" "snd w - fst w + 1 \<le> W" by simp_all
qed

theorem chunking_exhaustive_witness:
  "fetched (run_cycle DESTINATION_CHAIN_ID BLOCK_PROCESSING_CHUNK_SIZE (quiet_chain 250) (listener_at 100))
     = [(101, 200), (201, 250)]
   \<and> last_processed_block
       (run_cycle DESTINATION_CHAIN_ID BLOCK_PROCESSING_CHUNK_SIZE (quiet_chain 250) (listener_at 100))
     = 250
   \<and> {101..200} \<union> {201..250} = {101..(250::int)}"
  using chunking_exhaustive [of 101 250 BLOCK_PROCESSING_CHUNK_SIZE "quiet_chain 250"
      "listener_at 100" DESTINATION_CHAIN_ID]
  by (simp add: windows_rec BLOCK_PROCESSING_CHUNK_SIZE_def quiet_chain_def listener_at_def)

text \<open>
  Claim C6, as the listener implements it. A save overwrites the state file in place: the
  file is truncated, then the new record is written. A save without fault leaves the new
  record; a failed write leaves the truncated file, a failed open the old file; in each
  case the checkpoint in memory is kept. A truncated file is read at the next start as
  undecodable, and the checkpoint is seeded from the chain height.
\<close>

theorem save_overwrites_in_place:
  "state_file (save_state NoFault s) = Some (StateJson (last_processed_block s))
   \<and> save_state_storage s = [state_file s, Some EmptyFile, state_file (save_state NoFault s)]
   \<and> state_file (save_state WriteFault s) = Some EmptyFile
   \<and> state_file (save_state OpenFault s) = state_file s
   \<and> last_processed_block (save_state fault s) = last_processed_block s
   \<and> load_state env (Some EmptyFile) = seed (first_latest env)"
  by (simp add: save_state_def save_state_storage_def load_state_undecodable
      split: save_fault.splits)

theorem save_overwrites_in_place_witness:
  "state_file (save_state NoFault ((listener_at 200)\<lparr>last_processed_block := 250\<rparr>))
     = Some (StateJson 250)
   \<and> state_file (save_state WriteFault ((listener_at 200)\<lparr>last_processed_block := 250\<rparr>))
     = Some EmptyFile
   \<and> load_state \<lparr>open_fails = False, first_latest = Inr 1000, second_latest = Inr 1000\<rparr>
       (Some EmptyFile) = Inr (Block 999)"
  using save_overwrites_in_place [of "(listener_at 200)\<lparr>last_processed_block := 250\<rparr>"
      NoFault "\<lparr>open_fails = False, first_latest = Inr 1000, second_latest = Inr 1000\<rparr>"]
  by (simp add: listener_at_def seed_def)

text \<open>
  Claim C6 as stated fails: in the save of checkpoint 250 over a file that holds 200, the
  file is empty in between, which is neither the old nor the new record.
\<close>

theorem save_not_atomic:
  "state_file ((listener_at 200)\<lparr>last_processed_block := 250\<rparr>) = Some (StateJson 200)
   \<and> state_file (save_state NoFault ((listener_at 200)\<lparr>last_processed_block := 250\<rparr>))
       = Some (StateJson 250)
   \<and> save_state_storage ((listener_at 200)\<lparr>last_processed_block := 250\<rparr>) ! 1
       = Some EmptyFile
   \<and> save_state_storage ((listener_at 200)\<lparr>last_processed_block := 250\<rparr>) ! 1
       \<noteq> state_file ((listener_at 200)\<lparr>last_processed_block := 250\<rparr>)
   \<and> save_state_storage ((listener_at 200)\<lparr>last_processed_block := 250\<rparr>) ! 1
       \<noteq> state_file (save_state NoFault ((listener_at 200)\<lparr>last_processed_block := 250\<rparr>))"
  by (simp add: save_state_storage_def save_state_def listener_at_def)

text \<open>
  Claim C7 does not hold of the code for every corrupt state file. At chain height 1000 a
  missing, an empty and a non-JSON file seed the checkpoint to 999. But for a JSON object
  without the key, a JSON value that is not an object, and bytes that are not text,
  \<open>_load_state\<close> raises an exception that its \<open>except\<close> clause does not catch, and the
  listener is not created; and an object whose value is not an integer is loaded as it
  is, without seeding.
\<close>

theorem corrupt_state_not_seeded:
  "load_state \<lparr>open_fails = False, first_latest = Inr 1000, second_latest = Inr 1000\<rparr>
     (Some ObjectWithoutKey) = Inl KeyError
   \<and> load_state \<lparr>open_fails = False, first_latest = Inr 1000, second_latest = Inr 1000\<rparr>
     (Some NotObject) = Inl TypeError
   \<and> load_state \<lparr>open_fails = False, first_latest = Inr 1000, second_latest = Inr 1000\<rparr>
     (Some NotUtf8) = Inl UnicodeDecodeError
   \<and> load_state \<lparr>open_fails = False, first_latest = Inr 1000, second_latest = Inr 1000\<rparr>
     (Some StateNotInt) = Inr NotABlock
   \<and> load_state \<lparr>open_fails = False, first_latest = Inr 1000, second_latest = Inr 1000\<rparr>
     None = Inr (Block 999)
   \<and> load_state \<lparr>open_fails = False, first_latest = Inr 1000, second_latest = Inr 1000\<rparr>
     (Some EmptyFile) = Inr (Block 999)
   \<and> load_state \<lparr>open_fails = False, first_latest = Inr 1000, second_latest = Inr 1000\<rparr>
     (Some NotJson) = Inr (Block 999)"
  by (simp add: load_state_def seed_def)

text \<open>
  Claim C10. For every animal name, every weather argument, and whatever the Unicode case
  table does with the characters above 127: the probability returned is between 0 and 1;
  it is 0 for an animal whose normalised name is not in the table; and for an animal with
  base probability \<open>b\<close> and a weather argument that is not a member of the enumeration
  the modifier is 0, so that the result is \<open>b\<close>, clamped to the range from 0 to 100,
  over 100. (The float that Python returns is the double nearest to this quotient; 0 and 1
  are doubles.)
\<close>

theorem sighting_probability_range:
  "0 \<le> get_sighting_probability u a w \<and> get_sighting_probability u a w \<le> 1
   \<and> (BASE_PROBABILITIES (strip (lower u a)) = None \<longrightarrow> get_sighting_probability u a w = 0)
   \<and> (BASE_PROBABILITIES (strip (lower u a)) = Some b \<longrightarrow> WeatherCondition_of w = None \<longrightarrow>
        sighting_percent u a w = Some (max 0 (min 100 (b + 0))) \<and>
        get_sighting_probability u a w = real_of_int (max 0 (min 100 (b + 0))) / 100)"
proof (intro conjI impI)
  show "0 \<le> get_sighting_probability u a w"
    using sighting_percent_range [of u a w]
    by (cases "sighting_percent u a w") (simp_all add: get_sighting_probability_def)
  show "get_sighting_probability u a w \<le> 1"
    using sighting_percent_range [of u a w]
    by (cases "sighting_percent u a w") (simp_all add: get_sighting_probability_def)
  show "get_sighting_probability u a w = 0" if "BASE_PROBABILITIES (strip (lower u a)) = None"
    using that by (simp add: get_sighting_probability_def sighting_percent_def)
next
  assume "BASE_PROBABILITIES (strip (lower u a)) = Some b" "WeatherCondition_of w = None"
  then show p: "sighting_percent u a w = Some (max 0 (min 100 (b + 0)))"
    by (simp add: sighting_percent_def)
  then show "get_sighting_probability u a w = real_of_int (max 0 (min 100 (b + 0))) / 100"
    by (simp add: get_sighting_probability_def)
qed

theorem sighting_probability_range_witness:
  "\<forall>u. get_sighting_probability u (str ''  Lion '') (Str (str ''foggy'')) = 30 / 100
     \<and> get_sighting_probability u (str ''unicorn'') (Member NIGHT) = 0
     \<and> get_sighting_probability u (str ''lion'') (Str (str ''Night'')) = 30 / 100
     \<and> get_sighting_probability u (str ''LION'') (Str (str ''night'')) = 55 / 100
     \<and> strip (0xA0 # str ''lion'' @ [0x85, 0x3000]) = str ''lion''"
proof (intro allI)
  fix u
  from sighting_probability_range [of u "str ''  Lion ''" "Str (str ''foggy'')" 30]
    sighting_probability_range [of u "str ''unicorn''" "Member NIGHT" 0]
    sighting_probability_range [of u "str ''lion''" "Str (str ''Night'')" 30]
  show "get_sighting_probability u (str ''  Lion '') (Str (str ''foggy'')) = 30 / 100
     \<and> get_sighting_probability u (str ''unicorn'') (Member NIGHT) = 0
     \<and> get_sighting_probability u (str ''lion'') (Str (str ''Night'')) = 30 / 100
     \<and> get_sighting_probability u (str ''LION'') (Str (str ''night'')) = 55 / 100
     \<and> strip (0xA0 # str ''lion'' @ [0x85, 0x3000]) = str ''lion''"
    by (simp add: get_sighting_probability_def sighting_percent_def BASE_PROBABILITIES_def
        strip_def lower_def lower_ascii_def is_space_def str_def)
qed

end
